theory Spec2Isabelle
  imports Complex_Main "HOL-Library.Sublist" "HOL-Library.Multiset"
begin

section \<open>Arrays: \<open>slice\<close>, \<open>paginate\<close>, \<open>range\<close>\<close>

text \<open>
  \<open>Array.prototype.slice(start, end)\<close> on integer arguments: a negative index counts
  from the end of the array, both indices are clamped to \<open>0 .. length\<close>, and the result
  is empty when the clamped end does not exceed the clamped start. It never throws.
\<close>

definition relative_index :: "nat \<Rightarrow> int \<Rightarrow> nat" where
  "relative_index len i = (if i < 0 then nat (max (int len + i) 0) else nat (min i (int len)))"

definition slice :: "'a list \<Rightarrow> int \<Rightarrow> int \<Rightarrow> 'a list" where
  "slice xs start end =
     (let k = relative_index (length xs) start;
          final = relative_index (length xs) end
      in take (final - k) (drop k xs))"

text \<open>
  \<^verbatim>\<open>function paginate(data, currentPage, pageSize) {
    const startIndex = pageSize * (currentPage - 1);
    return data.slice(startIndex, startIndex + pageSize); }\<close>
  (table-old.js; the method \<open>paginate\<close> of the class computes the same slice of
  \<open>this.filtered\<close>.)
\<close>

definition paginate :: "'a list \<Rightarrow> int \<Rightarrow> int \<Rightarrow> 'a list" where
  "paginate data currentPage pageSize =
     (let startIndex = pageSize * (currentPage - 1)
      in slice data startIndex (startIndex + pageSize))"

text \<open>
  \<open>Math.ceil(filtered.length / pageSize)\<close>. The quotient is \<open>Infinity\<close> or \<open>NaN\<close> when
  \<open>pageSize\<close> is 0, which is no integer: \<open>None\<close>.
\<close>

definition pages :: "nat \<Rightarrow> int \<Rightarrow> int option" where
  "pages len pageSize =
     (if pageSize = 0 then None else Some \<lceil>(of_nat len :: rat) / of_int pageSize\<rceil>)"

text \<open>
  \<^verbatim>\<open>function range(low, high) {
    return Array.from({ length: high - low }, (_, i) => i + low) }\<close>
  A negative \<open>length\<close> gives the empty array.
\<close>

definition range_js :: "int \<Rightarrow> int \<Rightarrow> int list" where
  "range_js low high = map (\<lambda>i. int i + low) [0..<nat (high - low)]"

section \<open>The pagination window\<close>

datatype token = Page int | Ellipse

text \<open>
  The \<open>items\<close> array of \<open>createPagination\<close> (table-old.js) and of \<open>renderPagination\<close>
  (the class), which both build it with the same statements under \<open>if (pages > 1)\<close>;
  no page control is produced otherwise. \<open>paginationRange\<close> is the constant 2.
\<close>

definition paginationRange :: int where
  "paginationRange = 2"

definition createPagination_items :: "int \<Rightarrow> int \<Rightarrow> token list" where
  "createPagination_items currentPage pgs =
     (if pgs > 1 then
        (let surroundStart = max 1 (currentPage - paginationRange);
             surroundEnd = min pgs (currentPage + paginationRange)
         in (if surroundStart > 2 then [Page 1, Ellipse]
             else if surroundStart > 1 then [Page 1] else [])
            @ map Page (range_js surroundStart (surroundEnd + 1))
            @ (if surroundEnd < pgs - 1 then [Ellipse, Page pgs]
               else if surroundEnd < pgs then [Page pgs] else []))
      else [])"

definition renderPagination_items :: "int \<Rightarrow> int \<Rightarrow> token list" where
  "renderPagination_items currentPage pgs =
     (if pgs > 1 then
        (let surroundStart = max 1 (currentPage - paginationRange);
             surroundEnd = min pgs (currentPage + paginationRange)
         in (if surroundStart > 2 then [Page 1, Ellipse]
             else if surroundStart > 1 then [Page 1] else [])
            @ map Page (range_js surroundStart (surroundEnd + 1))
            @ (if surroundEnd < pgs - 1 then [Ellipse, Page pgs]
               else if surroundEnd < pgs then [Page pgs] else []))
      else [])"

text \<open>
  The window as the specification words it (section 4.4, steps 1 to 6), with the radius
  as an argument.
\<close>

definition window_spec :: "int \<Rightarrow> int \<Rightarrow> int \<Rightarrow> token list" where
  "window_spec currentPage totalPages radius =
     (if totalPages \<le> 1 then []
      else
        (let surroundStart = max 1 (currentPage - radius);
             surroundEnd = min totalPages (currentPage + radius);
             leading = (if surroundStart > 2 then [Page 1, Ellipse]
                        else if surroundStart > 1 then [Page 1] else []);
             middle = map Page [surroundStart..surroundEnd];
             trailing = (if surroundEnd < totalPages - 1 then [Ellipse, Page totalPages]
                         else if surroundEnd < totalPages then [Page totalPages] else [])
         in leading @ middle @ trailing))"

text \<open>Two ellipsis markers next to each other somewhere in a token sequence.\<close>

fun adjacent_ellipses :: "token list \<Rightarrow> bool" where
  "adjacent_ellipses (Ellipse # Ellipse # ts) = True"
| "adjacent_ellipses (t # ts) = adjacent_ellipses ts"
| "adjacent_ellipses [] = False"

section \<open>Strings\<close>

text \<open>
  Strings are lists of 8-bit characters. \<open>toLowerCase\<close> maps the capital letters
  \<open>A\<close> to \<open>Z\<close> to their small forms and keeps every other character; \<open>trim\<close> removes
  leading and trailing white space (space, tab, line feed, vertical tab, form feed,
  carriage return). No result below depends on which characters the two functions
  change.
\<close>

definition lower_char :: "char \<Rightarrow> char" where
  "lower_char c =
     (case map_of (zip ''ABCDEFGHIJKLMNOPQRSTUVWXYZ'' ''abcdefghijklmnopqrstuvwxyz'') c of
        None \<Rightarrow> c
      | Some l \<Rightarrow> l)"

definition toLowerCase :: "string \<Rightarrow> string" where
  "toLowerCase s = map lower_char s"

definition is_space :: "char \<Rightarrow> bool" where
  "is_space c = ((of_char c :: nat) = 32 \<or> (9 \<le> (of_char c :: nat) \<and> (of_char c :: nat) \<le> 13))"

definition trim :: "string \<Rightarrow> string" where
  "trim s = rev (dropWhile is_space (rev (dropWhile is_space s)))"

text \<open>\<open>s.startsWith(t)\<close>, \<open>s.includes(t)\<close> and \<open>s.indexOf(t)\<close> (\<open>-1\<close> when absent).\<close>

fun startsWith :: "string \<Rightarrow> string \<Rightarrow> bool" where
  "startsWith s [] = True"
| "startsWith [] (c # t) = False"
| "startsWith (a # s) (c # t) = (a = c \<and> startsWith s t)"

fun includes_js :: "string \<Rightarrow> string \<Rightarrow> bool" where
  "includes_js [] t = (t = [])"
| "includes_js (a # s) t = (if startsWith (a # s) t then True else includes_js s t)"

fun indexOf :: "string \<Rightarrow> string \<Rightarrow> int" where
  "indexOf [] t = (if t = [] then 0 else - 1)"
| "indexOf (a # s) t =
     (if startsWith (a # s) t then 0
      else (let i = indexOf s t in if i = - 1 then - 1 else i + 1))"

section \<open>Values, records and columns\<close>

text \<open>
  A cell value is a string, an integral number or \<open>undefined\<close>; a record is an object
  read by key, and reading a key it does not have gives \<open>undefined\<close>.
\<close>

datatype jsval = Undefined | Num int | Str string

type_synonym entry = "string \<rightharpoonup> jsval"

definition get :: "entry \<Rightarrow> string \<Rightarrow> jsval" where
  "get e k = (case e k of None \<Rightarrow> Undefined | Some v \<Rightarrow> v)"

text \<open>A column and the sort column are both objects with a \<open>key\<close>.\<close>

record keyed =
  key :: string

record column = keyed +
  label :: string
  ignoreFiltering :: bool

record 'o sort_column = keyed +
  order :: 'o

text \<open>\<open>String(v)\<close>: the decimal digits of a number, the text \<open>undefined\<close> for \<open>undefined\<close>.\<close>

fun digits :: "nat \<Rightarrow> string" where
  "digits n =
     (if n < 10 then [''0123456789'' ! n]
      else digits (n div 10) @ [''0123456789'' ! (n mod 10)])"

definition ToString :: "jsval \<Rightarrow> string" where
  "ToString v =
     (case v of
        Undefined \<Rightarrow> ''undefined''
      | Num n \<Rightarrow> (if n < 0 then CHR ''-'' # digits (nat (- n)) else digits (nat n))
      | Str s \<Rightarrow> s)"

text \<open>
  The relational operator \<open>a < b\<close>: two strings compare by their characters, any other
  pair compares as numbers, where \<open>undefined\<close> and a string that is no number convert to
  \<open>NaN\<close> and make the comparison false. \<open>StringToNumber\<close> reads the integer literals (white
  space trimmed, the empty string as 0, an optional sign); a string in another numeric
  form is read as \<open>NaN\<close>, the model having integral numbers only. \<open>a > b\<close> is \<open>b < a\<close>.
\<close>

fun str_lt :: "string \<Rightarrow> string \<Rightarrow> bool" where
  "str_lt [] [] = False"
| "str_lt [] (y # ys) = True"
| "str_lt (x # xs) [] = False"
| "str_lt (x # xs) (y # ys) =
     (if (of_char x :: nat) < of_char y then True
      else if (of_char y :: nat) < of_char x then False
      else str_lt xs ys)"

definition is_digit :: "char \<Rightarrow> bool" where
  "is_digit c = (48 \<le> (of_char c :: nat) \<and> (of_char c :: nat) \<le> 57)"

definition digits_value :: "string \<Rightarrow> int" where
  "digits_value ds = foldl (\<lambda>acc c. 10 * acc + (int (of_char c) - 48)) 0 ds"

definition StringToNumber :: "string \<Rightarrow> int option" where
  "StringToNumber s =
     (case trim s of
        [] \<Rightarrow> Some 0
      | c # cs \<Rightarrow>
          (if c = CHR ''-'' \<and> cs \<noteq> [] \<and> list_all is_digit cs then Some (- digits_value cs)
           else if c = CHR ''+'' \<and> cs \<noteq> [] \<and> list_all is_digit cs then Some (digits_value cs)
           else if list_all is_digit (c # cs) then Some (digits_value (c # cs))
           else None))"

definition ToNumber :: "jsval \<Rightarrow> int option" where
  "ToNumber v = (case v of Undefined \<Rightarrow> None | Num n \<Rightarrow> Some n | Str s \<Rightarrow> StringToNumber s)"

fun js_lt :: "jsval \<Rightarrow> jsval \<Rightarrow> bool" where
  "js_lt (Str a) (Str b) = str_lt a b"
| "js_lt a b =
     (case ToNumber a of
        None \<Rightarrow> False
      | Some x \<Rightarrow> (case ToNumber b of None \<Rightarrow> False | Some y \<Rightarrow> x < y))"

definition js_gt :: "jsval \<Rightarrow> jsval \<Rightarrow> bool" where
  "js_gt a b = js_lt b a"

section \<open>Sorting\<close>

text \<open>
  \<open>Array.prototype.sort(compareFn)\<close>. ECMAScript fixes the result only when the function
  is a consistent comparator for the elements: it compares every element equal to itself,
  comparing equal is symmetric and transitive, and so are comparing less and comparing
  greater transitive. The result is then the stable sort of the elements, which the
  insertion sort below computes: an element moves past exactly the elements it compares
  greater than. When the function is not consistent for the elements (keys of mixed
  types, or records without the key among others) the language leaves the order to the
  engine, and \<open>array_sort\<close> says nothing about it.
\<close>

fun insert_sorted :: "('a \<Rightarrow> 'a \<Rightarrow> int) \<Rightarrow> 'a \<Rightarrow> 'a list \<Rightarrow> 'a list" where
  "insert_sorted compareFn x [] = [x]"
| "insert_sorted compareFn x (y # ys) =
     (if compareFn x y > 0 then y # insert_sorted compareFn x ys else x # y # ys)"

definition insertion_sort :: "('a \<Rightarrow> 'a \<Rightarrow> int) \<Rightarrow> 'a list \<Rightarrow> 'a list" where
  "insertion_sort compareFn xs = foldr (insert_sorted compareFn) xs []"

definition consistent_comparator :: "('a \<Rightarrow> 'a \<Rightarrow> int) \<Rightarrow> 'a list \<Rightarrow> bool" where
  "consistent_comparator compareFn xs =
     list_all (\<lambda>a. compareFn a a = 0 \<and>
       list_all (\<lambda>b. (compareFn a b = 0 \<longrightarrow> compareFn b a = 0) \<and>
         list_all (\<lambda>c.
             (compareFn a b = 0 \<and> compareFn b c = 0 \<longrightarrow> compareFn a c = 0)
           \<and> (compareFn a b < 0 \<and> compareFn b c < 0 \<longrightarrow> compareFn a c < 0)
           \<and> (compareFn a b > 0 \<and> compareFn b c > 0 \<longrightarrow> compareFn a c > 0)) xs) xs) xs"

definition array_sort :: "('a \<Rightarrow> 'a \<Rightarrow> int) \<Rightarrow> 'a list \<Rightarrow> 'a list" where
  "array_sort compareFn xs =
     (if consistent_comparator compareFn xs then insertion_sort compareFn xs else undefined)"

text \<open>
  The comparator of \<open>sortData\<close> (the class, both versions):
  \<^verbatim>\<open>if (order === "asc") return (a[key] > b[key]) - (a[key] < b[key]);
  return (b[key] > a[key]) - (b[key] < a[key]);\<close>
\<close>

definition sortData_compare :: "string \<Rightarrow> string \<Rightarrow> entry \<Rightarrow> entry \<Rightarrow> int" where
  "sortData_compare k ord a b =
     (if ord = ''asc''
      then of_bool (js_gt (get a k) (get b k)) - of_bool (js_lt (get a k) (get b k))
      else of_bool (js_gt (get b k) (get a k)) - of_bool (js_lt (get b k) (get a k)))"

text \<open>
  The comparator of \<open>orderBy\<close> (table-old.js), where the order is the number 1 or -1:
  \<^verbatim>\<open>if (a[sortColumn.key] > b[sortColumn.key]) return 1 * sortColumn.order;
  if (a[sortColumn.key] < b[sortColumn.key]) return -1 * sortColumn.order;
  return 0;\<close>
\<close>

definition orderBy_compare :: "int sort_column \<Rightarrow> entry \<Rightarrow> entry \<Rightarrow> int" where
  "orderBy_compare sc a b =
     (if js_gt (get a (key sc)) (get b (key sc)) then 1 * order sc
      else if js_lt (get a (key sc)) (get b (key sc)) then - 1 * order sc
      else 0)"

section \<open>Searching\<close>

text \<open>
  The callback that \<open>filterByTerm\<close> (table-old.js) hands to \<open>data.filter\<close>: a loop over
  the columns that returns \<open>true\<close> at the first column that is not \<open>ignoreFiltering\<close>
  and whose stringified value is non-empty and, in lower case, includes the term.
\<close>

fun filterByTerm_callback :: "column list \<Rightarrow> string \<Rightarrow> entry \<Rightarrow> bool" where
  "filterByTerm_callback [] searchTerm entry = False"
| "filterByTerm_callback (c # cs) searchTerm entry =
     (if \<not> ignoreFiltering c then
        (let field = ToString (get entry (key c)) in
         if field \<noteq> [] then
           (if includes_js (toLowerCase field) searchTerm then True
            else filterByTerm_callback cs searchTerm entry)
         else filterByTerm_callback cs searchTerm entry)
      else filterByTerm_callback cs searchTerm entry)"

definition filterByTerm_filter :: "column list \<Rightarrow> string \<Rightarrow> entry list \<Rightarrow> entry list" where
  "filterByTerm_filter cols searchTerm xs = filter (filterByTerm_callback cols searchTerm) xs"

text \<open>
  The callback of the class's search listener; it returns \<open>undefined\<close>, which \<open>filter\<close>
  reads as false, when no column matches.
\<close>

fun search_callback :: "column list \<Rightarrow> string \<Rightarrow> entry \<Rightarrow> bool" where
  "search_callback [] searchTerm entry = False"
| "search_callback (c # cs) searchTerm entry =
     (if \<not> ignoreFiltering c then
        (let k = toLowerCase (ToString (get entry (key c))) in
         if indexOf k searchTerm \<noteq> - 1 then True
         else search_callback cs searchTerm entry)
      else search_callback cs searchTerm entry)"

text \<open>
  The filter as the specification words it (section 4.1): the records for which at least
  one column that is not \<open>ignoreFiltering\<close> has a stringified, case-folded value with the
  term as a substring.
\<close>

definition matches_spec :: "column list \<Rightarrow> string \<Rightarrow> entry \<Rightarrow> bool" where
  "matches_spec cols searchTerm r =
     (\<exists>c \<in> set cols. \<not> ignoreFiltering c
        \<and> (\<exists>ps ss. toLowerCase (ToString (get r (key c))) = ps @ searchTerm @ ss))"

section \<open>The class \<open>DataTable\<close>\<close>

text \<open>
  The state of an instance, and the options object of the constructor. \<open>opt_element\<close>
  is \<open>None\<close> when no (truthy) element is passed; \<open>opt_data\<close> and \<open>opt_columns\<close> hold
  the arrays after their default \<open>[]\<close>; the other options are \<open>None\<close> when left out.
  What the instance writes into the document is not part of the state.
\<close>

datatype error = TypeError | Error string

type_synonym element = string

record DataTable =
  this_data :: "entry list"
  this_filtered :: "entry list"
  this_paginated :: "entry list"
  this_columns :: "column list"
  this_currentPage :: int
  this_pageSize :: int
  this_sortColumn :: "string sort_column"
  this_showSearch :: bool

record options =
  opt_element :: "element option"
  opt_data :: "entry list"
  opt_columns :: "column list"
  opt_showSearch :: "bool option"
  opt_pageSize :: "int option"
  opt_sortColumn :: "string sort_column option"

text \<open>The method \<open>paginate\<close>, and \<open>render\<close>, which pages only a non-empty \<open>filtered\<close>.\<close>

definition DataTable_paginate :: "DataTable \<Rightarrow> DataTable" where
  "DataTable_paginate s =
     s\<lparr>this_paginated := paginate (this_filtered s) (this_currentPage s) (this_pageSize s)\<rparr>"

definition render :: "DataTable \<Rightarrow> DataTable" where
  "render s = (if this_filtered s \<noteq> [] then DataTable_paginate s else s)"

text \<open>
  table.js: \<open>sortData\<close> sorts \<open>this.data\<close> in place and copies it to \<open>this.filtered\<close>;
  \<open>initData\<close> sets \<open>this.data\<close> and sorts.
\<close>

definition sortData :: "DataTable \<Rightarrow> DataTable" where
  "sortData s =
     (let k = key (this_sortColumn s);
          ord = order (this_sortColumn s);
          sorted = array_sort (sortData_compare k ord) (this_data s)
      in s\<lparr>this_data := sorted, this_filtered := sorted\<rparr>)"

definition initData :: "entry list \<Rightarrow> DataTable \<Rightarrow> DataTable" where
  "initData tableData s = sortData (s\<lparr>this_data := tableData\<rparr>)"

text \<open>
  The other version of the class (src/unnamed/part_000): \<open>sortData\<close> sorts
  \<open>this.filtered\<close> in place; \<open>initData\<close> sets \<open>this.filtered\<close>, sorts, and copies the
  result to \<open>this.data\<close>.
\<close>

definition sortData_part000 :: "DataTable \<Rightarrow> DataTable" where
  "sortData_part000 s =
     (let k = key (this_sortColumn s);
          ord = order (this_sortColumn s)
      in s\<lparr>this_filtered := array_sort (sortData_compare k ord) (this_filtered s)\<rparr>)"

definition initData_part000 :: "entry list \<Rightarrow> DataTable \<Rightarrow> DataTable" where
  "initData_part000 tableData s =
     (let s1 = sortData_part000 (s\<lparr>this_filtered := tableData\<rparr>)
      in s1\<lparr>this_data := this_filtered s1\<rparr>)"

text \<open>
  \<open>renderPagination\<close> appends one button for every page:
  \<^verbatim>\<open>const pages = Math.ceil(this.filtered.length / this.pageSize);
  if (pages > 1) { ...
    for (let i = 0; i < pages; i++) { const pageNumber = i + 1; ... nav.append(pageBtn); }\<close>
  With the page size 0 the quotient is \<open>NaN\<close> for no rows, and \<open>NaN > 1\<close> is false; it is
  \<open>Infinity\<close> for some rows, and the loop has no end. \<open>pageButtons\<close> is the loop, with
  \<open>None\<close> for the bound \<open>Infinity\<close>; its value, and that of \<open>renderPagination\<close>, are the
  numbers of the buttons appended, or \<open>None\<close> when the loop does not return.
  \<open>render_nav\<close> is what a call of \<open>render\<close> appends, nothing without rows: \<open>render\<close>
  above gives the fields that a call leaves, \<open>render_nav\<close> tells whether it returns.
\<close>

partial_function (option) pageButtons :: "int \<Rightarrow> int option \<Rightarrow> int list \<Rightarrow> int list option" where
  "pageButtons i pgs nav =
     (if (case pgs of None \<Rightarrow> True | Some p \<Rightarrow> i < p)
      then pageButtons (i + 1) pgs (nav @ [i + 1])
      else Some nav)"

definition renderPagination :: "DataTable \<Rightarrow> int list option" where
  "renderPagination s =
     (case pages (length (this_filtered s)) (this_pageSize s) of
        None \<Rightarrow> (if this_filtered s = [] then Some [] else pageButtons 0 None [])
      | Some p \<Rightarrow> (if p > 1 then pageButtons 0 (Some p) [] else Some []))"

definition render_nav :: "DataTable \<Rightarrow> int list option" where
  "render_nav s =
     (if this_filtered s \<noteq> [] then renderPagination (DataTable_paginate s) else Some [])"

text \<open>
  The constructor, called without a \<open>changeHandlers\<close> callback. The default of
  \<open>sortColumn\<close> reads \<open>columns[0].key\<close> while the parameters are bound, a \<open>TypeError\<close> on
  an empty column list; then a missing element is refused; then the fields are set, the
  data sorted and the first page rendered. The result is \<open>None\<close> when the call does not
  return, \<open>Some (Inl e)\<close> when it throws \<open>e\<close>, and \<open>Some (Inr s)\<close> when it returns the
  instance \<open>s\<close>. The default page size is 3 in table.js and 20 in the other version.
\<close>

definition default_sortColumn :: "column list \<Rightarrow> 'o \<Rightarrow> error + 'o sort_column" where
  "default_sortColumn cols ord =
     (case cols of [] \<Rightarrow> Inl TypeError
      | c # cs \<Rightarrow> Inr \<lparr>key = key c, order = ord\<rparr>)"

definition new_fields :: "options \<Rightarrow> int \<Rightarrow> string sort_column \<Rightarrow> DataTable" where
  "new_fields opts defaultPageSize sortColumn =
     \<lparr>this_data = opt_data opts, this_filtered = [], this_paginated = [],
      this_columns = opt_columns opts, this_currentPage = 1,
      this_pageSize = (case opt_pageSize opts of None \<Rightarrow> defaultPageSize | Some n \<Rightarrow> n),
      this_sortColumn = sortColumn,
      this_showSearch = (case opt_showSearch opts of None \<Rightarrow> opt_data opts \<noteq> [] | Some b \<Rightarrow> b)\<rparr>"

definition DataTable_constructor :: "options \<Rightarrow> (error + DataTable) option" where
  "DataTable_constructor opts =
     (case (case opt_sortColumn opts of
              None \<Rightarrow> default_sortColumn (opt_columns opts) ''asc''
            | Some sc \<Rightarrow> Inr sc) of
        Inl e \<Rightarrow> Some (Inl e)
      | Inr sortColumn \<Rightarrow>
          (case opt_element opts of
             None \<Rightarrow> Some (Inl (Error ''Element not provided!''))
           | Some el \<Rightarrow>
               (let s0 = new_fields opts 3 sortColumn;
                    s = initData (this_data s0) s0
                in case render_nav s of
                     None \<Rightarrow> None
                   | Some nav \<Rightarrow> Some (Inr (render s)))))"

definition DataTable_constructor_part000 :: "options \<Rightarrow> (error + DataTable) option" where
  "DataTable_constructor_part000 opts =
     (case (case opt_sortColumn opts of
              None \<Rightarrow> default_sortColumn (opt_columns opts) ''asc''
            | Some sc \<Rightarrow> Inr sc) of
        Inl e \<Rightarrow> Some (Inl e)
      | Inr sortColumn \<Rightarrow>
          (case opt_element opts of
             None \<Rightarrow> Some (Inl (Error ''Element not provided!''))
           | Some el \<Rightarrow>
               (let s0 = new_fields opts 20 sortColumn;
                    s = initData_part000 (this_data s0) s0
                in case render_nav s of
                     None \<Rightarrow> None
                   | Some nav \<Rightarrow> Some (Inr (render s)))))"

text \<open>
  The listener of the search input (the same in both versions), on the text typed.
\<close>

definition searchInput_input :: "string \<Rightarrow> DataTable \<Rightarrow> DataTable" where
  "searchInput_input v s =
     (let searchTerm = toLowerCase (trim v);
          s1 = s\<lparr>this_currentPage := 1\<rparr>;
          s2 = (if searchTerm \<noteq> []
                then s1\<lparr>this_filtered :=
                         filter (search_callback (this_columns s1) searchTerm) (this_data s1)\<rparr>
                else s1\<lparr>this_filtered := this_data s1\<rparr>)
      in render s2)"

text \<open>
  The click listener that \<open>renderTableHead\<close> puts on the header of a column; a column
  with \<open>ignoreFiltering\<close> gets none. table.js:
  \<^verbatim>\<open>if (this.sortColumn.key === column.key) {
    this.sortColumn.order = this.sortColumn.order === "asc" ? "desc" : "asc";
  } else { this.sortColumn.key = column.key; this.sortColumn.order = "asc"; }
  this.sortData(); this.render();\<close>
  The other version ends with
  \<^verbatim>\<open>this.currentPage = 1;
  //  this.sortData();
  this.render();\<close>
\<close>

definition clicked_sortColumn :: "string sort_column \<Rightarrow> column \<Rightarrow> string sort_column" where
  "clicked_sortColumn sc col =
     (if key sc = key col
      then sc\<lparr>order := (if order sc = ''asc'' then ''desc'' else ''asc'')\<rparr>
      else sc\<lparr>key := key col, order := ''asc''\<rparr>)"

definition renderTableHead_click :: "column \<Rightarrow> DataTable \<Rightarrow> DataTable" where
  "renderTableHead_click col s =
     (if ignoreFiltering col then s
      else render (sortData (s\<lparr>this_sortColumn := clicked_sortColumn (this_sortColumn s) col\<rparr>)))"

definition renderTableHead_click_part000 :: "column \<Rightarrow> DataTable \<Rightarrow> DataTable" where
  "renderTableHead_click_part000 col s =
     (if ignoreFiltering col then s
      else render (s\<lparr>this_sortColumn := clicked_sortColumn (this_sortColumn s) col,
                     this_currentPage := 1\<rparr>))"

text \<open>\<open>changePage\<close> (named \<open>changeTablePage\<close> in the other version).\<close>

definition changePage :: "int \<Rightarrow> DataTable \<Rightarrow> DataTable" where
  "changePage pageNum s = render (s\<lparr>this_currentPage := pageNum\<rparr>)"

section \<open>The closure \<open>tablePage\<close> (table-old.js)\<close>

text \<open>
  The variables the closure keeps, with the text of its search input and what its table
  container shows. \<open>filterByTerm\<close> assigns \<open>filtered = data\<close> on an empty term, after
  which both names denote one array, which \<open>orderBy\<close> sorts in place:
  \<open>filtered_is_data\<close> records that.
\<close>

datatype rendered = NoRecordsCard | Table "entry list"

record closure =
  data :: "entry list"
  columns :: "column list"
  pageSize :: int
  showSearch :: bool
  sortColumn :: "int sort_column"
  filtered :: "entry list"
  filtered_is_data :: bool
  currentPage :: int
  searchInput_value :: string
  table_container :: rendered

text \<open>
  The arguments of a call, without a \<open>changeHandlers\<close> callback, and what the document
  of the call holds: \<open>document_search\<close> is the text of the element that
  \<open>document.querySelector(".search")\<close> gives once the search input is written into the
  container, and \<open>None\<close> when it gives \<open>null\<close>, as for a container that is not part of
  the document.
\<close>

record tablePage_args =
  arg_container :: "element option"
  arg_data :: "entry list"
  arg_columns :: "column list"
  arg_pageSize :: "int option"
  arg_showSearch :: "bool option"
  arg_sortColumn :: "int sort_column option"
  arg_hasRefresh :: "bool option"
  document_search :: "string option"

definition tablePage_render :: "closure \<Rightarrow> closure" where
  "tablePage_render c =
     (let paginated = paginate (filtered c) (currentPage c) (pageSize c)
      in if filtered c \<noteq> [] then c\<lparr>table_container := Table paginated\<rparr>
         else c\<lparr>table_container := NoRecordsCard\<rparr>)"

definition orderBy :: "string \<Rightarrow> bool \<Rightarrow> closure \<Rightarrow> closure" where
  "orderBy k retainOrder c =
     (let sc = \<lparr>key = k,
                order = (if key (sortColumn c) = k
                              then (if retainOrder then order (sortColumn c)
                                    else order (sortColumn c) * - 1)
                              else 1)\<rparr>;
          sorted = array_sort (orderBy_compare sc) (filtered c)
      in tablePage_render
           (c\<lparr>sortColumn := sc, filtered := sorted,
              data := (if filtered_is_data c then sorted else data c),
              currentPage := 1\<rparr>))"

definition filterByTerm :: "string \<Rightarrow> closure \<Rightarrow> closure" where
  "filterByTerm searchTerm c =
     (let c1 = (if searchTerm \<noteq> []
                then c\<lparr>currentPage := 1,
                       filtered := filterByTerm_filter (columns c) searchTerm (data c),
                       filtered_is_data := False\<rparr>
                else c\<lparr>filtered := data c, filtered_is_data := True\<rparr>)
      in orderBy (key (sortColumn c1)) True c1)"

definition init :: "closure \<Rightarrow> closure" where
  "init c =
     (let c1 = c\<lparr>filtered := data c, filtered_is_data := False\<rparr>
      in if showSearch c1 \<and> searchInput_value c1 \<noteq> []
         then filterByTerm (searchInput_value c1) c1
         else (case find (\<lambda>col. key col = key (sortColumn c1)) (columns c1) of
                 None \<Rightarrow> tablePage_render c1
               | Some col \<Rightarrow>
                   (if ignoreFiltering col then tablePage_render c1
                    else orderBy (key (sortColumn c1)) True c1)))"

definition update :: "entry list \<Rightarrow> closure \<Rightarrow> closure" where
  "update updated c = init (c\<lparr>data := updated\<rparr>)"

text \<open>The listeners: a key released in the search input, a header, a page link.\<close>

definition searchInput_keyup :: "string \<Rightarrow> closure \<Rightarrow> closure" where
  "searchInput_keyup v c =
     (let searchTerm = toLowerCase (trim v)
      in filterByTerm searchTerm (c\<lparr>searchInput_value := v\<rparr>))"

definition header_click :: "column \<Rightarrow> closure \<Rightarrow> closure" where
  "header_click col c = (if ignoreFiltering col then c else orderBy (key col) False c)"

definition anchor_click :: "int \<Rightarrow> closure \<Rightarrow> closure" where
  "anchor_click page c = tablePage_render (c\<lparr>currentPage := page\<rparr>)"

text \<open>
  What a call of \<open>tablePage\<close> leaves: the container holds either the no-records card
  alone or the root with the table container, and the call returns either \<open>undefined\<close>
  (\<open>None\<close>) or the function \<open>update\<close>, given here by the closure it works on. With
  \<open>showSearch\<close> the listener is put on the element that
  \<open>document.querySelector(".search")\<close> gives, a \<open>TypeError\<close> when that is \<open>null\<close>.
  \<open>createPagination\<close> has no loop over the pages, and every call returns or throws.
\<close>

datatype container_html = Only_NoRecordsCard | Root

record tablePage_result =
  container_shows :: container_html
  returned :: "closure option"

definition tablePage :: "tablePage_args \<Rightarrow> error + tablePage_result" where
  "tablePage args =
     (case (case arg_sortColumn args of
              None \<Rightarrow> default_sortColumn (arg_columns args) 1
            | Some sc \<Rightarrow> Inr sc) of
        Inl e \<Rightarrow> Inl e
      | Inr sc \<Rightarrow>
          (case arg_container args of
             None \<Rightarrow> Inl (Error ''Element not found.'')
           | Some container \<Rightarrow>
               (let hasRefresh = (case arg_hasRefresh args of None \<Rightarrow> False | Some b \<Rightarrow> b);
                    search = (case arg_showSearch args of None \<Rightarrow> True | Some b \<Rightarrow> b)
                in if arg_data args = [] \<and> \<not> hasRefresh
                   then Inr \<lparr>container_shows = Only_NoRecordsCard, returned = None\<rparr>
                   else if search \<and> document_search args = None
                   then Inl TypeError
                   else
                     (let c = \<lparr>data = arg_data args, columns = arg_columns args,
                               pageSize = (case arg_pageSize args of None \<Rightarrow> 20 | Some n \<Rightarrow> n),
                               showSearch = search,
                               sortColumn = sc, filtered = [], filtered_is_data = False,
                               currentPage = 1,
                               searchInput_value =
                                 (case document_search args of None \<Rightarrow> [] | Some v \<Rightarrow> v),
                               table_container = NoRecordsCard\<rparr>
                      in Inr \<lparr>container_shows = Root, returned = Some (init c)\<rparr>))))"

section \<open>Auxiliary notions and example data\<close>


definition is_Num :: "jsval \<Rightarrow> bool" where
  "is_Num v = (case v of Num n \<Rightarrow> True | _ \<Rightarrow> False)"

definition is_Str :: "jsval \<Rightarrow> bool" where
  "is_Str v = (case v of Str s \<Rightarrow> True | _ \<Rightarrow> False)"

definition comparable_keys :: "string \<Rightarrow> entry list \<Rightarrow> bool" where
  "comparable_keys k xs =
     (if list_all (\<lambda>e. is_Num (get e k)) xs then True else list_all (\<lambda>e. is_Str (get e k)) xs)"

text \<open>Inputs on which the functions are evaluated below.\<close>

definition ex_column :: "string \<Rightarrow> bool \<Rightarrow> column" where
  "ex_column k ign = \<lparr>key = k, label = k, ignoreFiltering = ign\<rparr>"

definition ex_records :: "entry list" where
  "ex_records =
     [[''name'' \<mapsto> Str ''Ann'', ''note'' \<mapsto> Str ''x''],
      [''name'' \<mapsto> Str ''Bob'', ''note'' \<mapsto> Str ''ann''],
      [''name'' \<mapsto> Str ''Joanne'']]"

definition ex_closure :: closure where
  "ex_closure =
     \<lparr>data = ex_records, columns = [ex_column ''name'' False, ex_column ''note'' True],
      pageSize = 20, showSearch = True, sortColumn = \<lparr>key = ''name'', order = 1\<rparr>,
      filtered = ex_records, filtered_is_data = False, currentPage = 1,
      searchInput_value = [], table_container = Table ex_records\<rparr>"

definition ex_table :: DataTable where
  "ex_table =
     \<lparr>this_data = [[''n'' \<mapsto> Num 1], [''n'' \<mapsto> Num 2], [''n'' \<mapsto> Num 3]],
      this_filtered = [[''n'' \<mapsto> Num 1], [''n'' \<mapsto> Num 2], [''n'' \<mapsto> Num 3]],
      this_paginated = [[''n'' \<mapsto> Num 3]],
      this_columns = [ex_column ''n'' False], this_currentPage = 2, this_pageSize = 2,
      this_sortColumn = \<lparr>key = ''n'', order = ''asc''\<rparr>, this_showSearch = True\<rparr>"

definition ex_options :: options where
  "ex_options =
     \<lparr>opt_element = Some ''#table'', opt_data = [[''name'' \<mapsto> Str ''Ann'']],
      opt_columns = [ex_column ''name'' False], opt_showSearch = None, opt_pageSize = None,
      opt_sortColumn = Some \<lparr>key = ''zzz'', order = ''asc''\<rparr>\<rparr>"

definition ex_args :: tablePage_args where
  "ex_args =
     \<lparr>arg_container = Some ''#table'', arg_data = [[''name'' \<mapsto> Str ''Ann'']],
      arg_columns = [ex_column ''name'' False], arg_pageSize = None, arg_showSearch = None,
      arg_sortColumn = Some \<lparr>key = ''zzz'', order = 1\<rparr>, arg_hasRefresh = None,
      document_search = Some []\<rparr>"

section \<open>Facts about arrays and the window\<close>

lemma range_upto: "range_js low (high + 1) = [low..high]"
proof (induction "nat (high + 1 - low)" arbitrary: high)
  case 0
  then show ?case by (simp add: range_js_def)
next
  case (Suc n)
  then have le: "low \<le> high" and n: "n = nat (high - low)" by linarith+
  from n have "n = nat ((high - 1) + 1 - low)" by simp
  then have IH: "range_js low ((high - 1) + 1) = [low..high - 1]" by (rule Suc.hyps(1))
  have "nat (high + 1 - low) = Suc (nat (high - low))" using le by linarith
  then have "range_js low (high + 1) = range_js low high @ [high]"
    using le by (simp add: range_js_def)
  with IH le show ?case by (simp add: upto_rec2)
qed

lemma createPagination_items_spec:
  "createPagination_items page totalPages = window_spec page totalPages 2"
  by (simp add: createPagination_items_def window_spec_def paginationRange_def range_upto Let_def)

lemma renderPagination_items_spec:
  "renderPagination_items page totalPages = window_spec page totalPages 2"
  by (simp add: renderPagination_items_def window_spec_def paginationRange_def range_upto Let_def)

lemma adjacent_ellipses_pages: "adjacent_ellipses (map Page ms @ ts) = adjacent_ellipses ts"
  by (induction ms) auto

lemma adjacent_ellipses_pages_only: "\<not> adjacent_ellipses (map Page ms)"
  using adjacent_ellipses_pages [of ms "[]"] by simp

lemma adjacent_ellipses_after_ellipse:
  "adjacent_ellipses (Ellipse # map Page ms @ ts) =
     (if ms = [] then adjacent_ellipses (Ellipse # ts) else adjacent_ellipses ts)"
  by (cases ms) (simp_all add: adjacent_ellipses_pages)

lemma window_spec_no_adjacent: "\<not> adjacent_ellipses (window_spec c p 2)"
proof (cases "p \<le> 1")
  case True
  then show ?thesis by (simp add: window_spec_def)
next
  case False
  define s where "s = max 1 (c - 2)"
  define e where "e = min p (c + 2)"
  have gap: "[s..e] \<noteq> []" if "2 < s" "e < p - 1"
    using that by (simp add: s_def e_def)
  show ?thesis
    using False gap
    by (auto simp add: window_spec_def Let_def adjacent_ellipses_pages
        adjacent_ellipses_pages_only adjacent_ellipses_after_ellipse
        simp flip: s_def e_def)
qed

subsection \<open>Pages of a list\<close>

lemma paginate_nat:
  assumes "0 < ps" "1 \<le> p"
  shows "paginate xs p ps = take (nat ps) (drop (nat ps * nat (p - 1)) xs)"
proof -
  define s where "s = nat ps * nat (p - 1)"
  have s: "ps * (p - 1) = int s" using assms by (simp add: s_def)
  have nn: "\<not> int s < 0" "\<not> int s + ps < 0" using assms by simp_all
  show ?thesis
    unfolding paginate_def slice_def relative_index_def Let_def s
      if_not_P[OF nn(1)] if_not_P[OF nn(2)] s_def[symmetric]
    using assms(1) by (cases "s \<le> length xs") (auto simp: min_def nat_add_distrib)
qed

lemma concat_chunks: "concat (map (\<lambda>i. take n (drop (n * i) xs)) [0..<k]) = take (n * k) xs"
proof (induction k)
  case 0
  show ?case by simp
next
  case (Suc k)
  have "take (n * Suc k) xs = take (n * k + n) xs" by (simp add: add.commute)
  also have "\<dots> = take (n * k) xs @ take n (drop (n * k) xs)" by (rule take_add)
  finally show ?case using Suc.IH by simp
qed

lemma upto_from_1: "[1..int k] = map (\<lambda>i. int i + 1) [0..<k]"
  using range_upto [of 1 "int k"] by (simp add: range_js_def)

lemma concat_pages:
  assumes "0 < ps"
  shows "concat (map (\<lambda>p. paginate xs p ps) [1..int k]) = take (nat ps * k) xs"
proof -
  have "map (\<lambda>p. paginate xs p ps) [1..int k]
          = map (\<lambda>i. take (nat ps) (drop (nat ps * i) xs)) [0..<k]"
    using assms by (simp add: upto_from_1 paginate_nat o_def)
  then show ?thesis by (simp add: concat_chunks)
qed

lemma pages_pos:
  assumes "0 < ps"
  shows "pages len ps = Some (- ((- int len) div ps))"
  using assms ceiling_divide_eq_div [of "int len" ps, where ?'a = rat]
  by (simp add: pages_def)

lemma length_paginate_le: "0 < ps \<Longrightarrow> length (paginate xs p ps) \<le> nat ps"
  by (auto simp: paginate_def slice_def relative_index_def Let_def min_def max_def)

lemma ceil_div_bounds:
  fixes len ps :: int
  assumes "0 < ps"
  defines "t \<equiv> - ((- len) div ps)"
  shows "len \<le> t * ps" and "(t - 1) * ps < len"
proof -
  have eq: "(- len) div ps * ps + (- len) mod ps = - len" by (rule div_mult_mod_eq)
  have r: "0 \<le> (- len) mod ps" "(- len) mod ps < ps"
    using assms(1) by simp_all
  have t: "t * ps = - ((- len) div ps * ps)" by (simp add: t_def)
  show "len \<le> t * ps" using eq r t by linarith
  have "(t - 1) * ps = t * ps - ps" by (simp add: algebra_simps)
  then show "(t - 1) * ps < len" using eq r t by linarith
qed

lemma ceil_div_nonneg:
  fixes len ps :: int
  assumes "0 < ps" "0 \<le> len"
  shows "0 \<le> - ((- len) div ps)"
proof (cases "len = 0")
  case True
  then show ?thesis by simp
next
  case False
  with assms have "(- len) div ps < 0" by (simp add: pos_imp_zdiv_neg_iff)
  then show ?thesis by simp
qed

subsection \<open>Searching\<close>

lemma startsWith_iff: "startsWith s t \<longleftrightarrow> (\<exists>ss. s = t @ ss)"
  by (induction s t rule: startsWith.induct) auto

lemma includes_js_iff: "includes_js s t \<longleftrightarrow> (\<exists>ps ss. s = ps @ t @ ss)"
proof (induction s)
  case Nil
  show ?case by auto
next
  case (Cons a s)
  have "(\<exists>ps ss. a # s = ps @ t @ ss) \<longleftrightarrow> (\<exists>ss. a # s = t @ ss) \<or> (\<exists>ps ss. s = ps @ t @ ss)"
    by (auto simp: Cons_eq_append_conv) 
  with Cons show ?case by (simp add: startsWith_iff)
qed

lemma indexOf_ge: "- 1 \<le> indexOf s t"
  by (induction s) (auto simp: Let_def)

lemma indexOf_iff: "indexOf s t \<noteq> - 1 \<longleftrightarrow> includes_js s t"
proof (induction s)
  case Nil
  show ?case by simp
next
  case (Cons a s)
  have "indexOf s t + 1 \<noteq> - 1" using indexOf_ge [of s t] by linarith
  with Cons show ?case by (auto simp: Let_def)
qed

lemma filterByTerm_callback_iff:
  assumes "searchTerm \<noteq> []"
  shows "filterByTerm_callback cols searchTerm r = matches_spec cols searchTerm r"
proof (induction cols)
  case Nil
  show ?case by (simp add: matches_spec_def)
next
  case (Cons c cs)
  have empty: "\<not> includes_js (toLowerCase []) searchTerm"
    using assms by (simp add: toLowerCase_def)
  have "matches_spec (c # cs) searchTerm r \<longleftrightarrow>
          (\<not> ignoreFiltering c \<and> includes_js (toLowerCase (ToString (get r (key c)))) searchTerm)
          \<or> matches_spec cs searchTerm r"
    by (auto simp: matches_spec_def includes_js_iff)
  with Cons empty show ?case by (auto simp: Let_def)
qed

lemma search_callback_iff: "search_callback cols searchTerm r = matches_spec cols searchTerm r"
proof (induction cols)
  case Nil
  show ?case by (simp add: matches_spec_def)
next
  case (Cons c cs)
  have "matches_spec (c # cs) searchTerm r \<longleftrightarrow>
          (\<not> ignoreFiltering c \<and> includes_js (toLowerCase (ToString (get r (key c)))) searchTerm)
          \<or> matches_spec cs searchTerm r"
    by (auto simp: matches_spec_def includes_js_iff)
  with Cons show ?case by (auto simp: Let_def indexOf_iff)
qed

lemma filterByTerm_callback_eq:
  "searchTerm \<noteq> [] \<Longrightarrow> filterByTerm_callback cols searchTerm = matches_spec cols searchTerm"
  by (rule ext) (rule filterByTerm_callback_iff)

lemma search_callback_eq: "search_callback cols searchTerm = matches_spec cols searchTerm"
  by (rule ext) (rule search_callback_iff)

lemma matches_spec_consulted:
  "matches_spec (filter (\<lambda>c. \<not> ignoreFiltering c) cols) searchTerm r = matches_spec cols searchTerm r"
  by (auto simp: matches_spec_def)

lemma this_filtered_render: "this_filtered (render s) = this_filtered s"
  by (simp add: render_def DataTable_paginate_def)

text \<open>
  What the search listeners compute. Let the term be the trimmed, lower-cased text of the
  search input, and let it be non-empty. The array that \<open>data.filter\<close> returns in
  \<open>filterByTerm\<close>, and \<open>this.filtered\<close> after the class's listener, consist of exactly
  the records for which some column that is not \<open>ignoreFiltering\<close> has a stringified,
  lower-cased value containing the term, in the order of the input; leaving the
  \<open>ignoreFiltering\<close> columns out of the column list changes nothing.
\<close>

lemma search_listener_filter:
  assumes "searchTerm \<noteq> []" and "toLowerCase (trim v) = searchTerm"
  shows "filterByTerm_filter cols searchTerm records = filter (matches_spec cols searchTerm) records
       \<and> this_filtered (searchInput_input v s)
           = filter (matches_spec (this_columns s) searchTerm) (this_data s)
       \<and> subseq (filterByTerm_filter cols searchTerm records) records
       \<and> subseq (this_filtered (searchInput_input v s)) (this_data s)
       \<and> filterByTerm_filter (filter (\<lambda>c. \<not> ignoreFiltering c) cols) searchTerm records
           = filterByTerm_filter cols searchTerm records
       \<and> filter (search_callback (filter (\<lambda>c. \<not> ignoreFiltering c) cols) searchTerm) records
           = filter (search_callback cols searchTerm) records"
proof -
  have A: "filterByTerm_filter cs searchTerm records = filter (matches_spec cs searchTerm) records" for cs
    using assms(1) by (simp add: filterByTerm_filter_def filterByTerm_callback_eq)
  have B: "this_filtered (searchInput_input v s)
           = filter (matches_spec (this_columns s) searchTerm) (this_data s)"
    using assms by (simp add: searchInput_input_def Let_def this_filtered_render search_callback_eq)
  have C: "matches_spec (filter (\<lambda>c. \<not> ignoreFiltering c) cols) searchTerm = matches_spec cols searchTerm"
    by (rule ext) (rule matches_spec_consulted)
  show ?thesis
    by (simp add: A B C search_callback_eq)
qed

text \<open>
  The text \<open>" Ann "\<close> gives the term \<open>ann\<close>, which keeps Ann and Joanne and drops Bob,
  whose only match is in an \<open>ignoreFiltering\<close> column.
\<close>

lemma search_listener_filter_example:
  "''ann'' \<noteq> [] \<and> toLowerCase (trim '' Ann '') = ''ann''
   \<and> map (\<lambda>r. get r ''name'')
        (filterByTerm_filter [ex_column ''name'' False, ex_column ''note'' True] ''ann'' ex_records)
       = [Str ''Ann'', Str ''Joanne'']
   \<and> map (\<lambda>r. get r ''name'')
        (this_filtered (searchInput_input '' Ann ''
           (ex_table\<lparr>this_data := ex_records,
                      this_columns := [ex_column ''name'' False, ex_column ''note'' True]\<rparr>)))
       = [Str ''Ann'', Str ''Joanne'']"
proof -
  have t: "toLowerCase (trim '' Ann '') = ''ann''"
    by (simp add: toLowerCase_def trim_def is_space_def lower_char_def)
  have m: "map (\<lambda>r. get r ''name'')
             (filter (matches_spec [ex_column ''name'' False, ex_column ''note'' True] ''ann'')
                ex_records) = [Str ''Ann'', Str ''Joanne'']"
    by (simp add: search_callback_eq [symmetric] ex_records_def ex_column_def get_def
        ToString_def toLowerCase_def lower_char_def)
  from search_listener_filter [of "''ann''" "'' Ann ''"
      "[ex_column ''name'' False, ex_column ''note'' True]" ex_records
      "ex_table\<lparr>this_data := ex_records,
                 this_columns := [ex_column ''name'' False, ex_column ''note'' True]\<rparr>"] t m
  show ?thesis by simp
qed

subsection \<open>Sorting\<close>

lemma insertion_sort_Cons:
  "insertion_sort cmp (x # xs) = insert_sorted cmp x (insertion_sort cmp xs)"
  by (simp add: insertion_sort_def)

lemma insertion_sort_Nil: "insertion_sort cmp [] = []"
  by (simp add: insertion_sort_def)

lemma mset_insert_sorted: "mset (insert_sorted cmp x ys) = add_mset x (mset ys)"
  by (induction ys) simp_all

lemma mset_insertion_sort: "mset (insertion_sort cmp xs) = mset xs"
  by (induction xs) (simp_all add: insertion_sort_Nil insertion_sort_Cons mset_insert_sorted)

lemma set_insertion_sort: "set (insertion_sort cmp xs) = set xs"
  using mset_insertion_sort [of cmp xs] by (metis set_mset_mset)

lemma consistent_comparator_iff:
  "consistent_comparator cmp xs \<longleftrightarrow>
     (\<forall>a \<in> set xs. cmp a a = 0 \<and>
        (\<forall>b \<in> set xs. (cmp a b = 0 \<longrightarrow> cmp b a = 0) \<and>
           (\<forall>c \<in> set xs.
               (cmp a b = 0 \<and> cmp b c = 0 \<longrightarrow> cmp a c = 0)
             \<and> (cmp a b < 0 \<and> cmp b c < 0 \<longrightarrow> cmp a c < 0)
             \<and> (cmp a b > 0 \<and> cmp b c > 0 \<longrightarrow> cmp a c > 0))))"
  by (simp add: consistent_comparator_def list_all_iff)


lemma consistent_refl:
  "consistent_comparator cmp xs \<Longrightarrow> a \<in> set xs \<Longrightarrow> cmp a a = 0"
  unfolding consistent_comparator_iff by blast

lemma consistent_sym:
  "consistent_comparator cmp xs \<Longrightarrow> a \<in> set xs \<Longrightarrow> b \<in> set xs \<Longrightarrow> cmp a b = 0
     \<Longrightarrow> cmp b a = 0"
  unfolding consistent_comparator_iff by blast

lemma consistent_trans_eq:
  "consistent_comparator cmp xs \<Longrightarrow> a \<in> set xs \<Longrightarrow> b \<in> set xs \<Longrightarrow> c \<in> set xs
     \<Longrightarrow> cmp a b = 0 \<Longrightarrow> cmp b c = 0 \<Longrightarrow> cmp a c = 0"
  unfolding consistent_comparator_iff by blast

lemma consistent_trans_lt:
  "consistent_comparator cmp xs \<Longrightarrow> a \<in> set xs \<Longrightarrow> b \<in> set xs \<Longrightarrow> c \<in> set xs
     \<Longrightarrow> cmp a b < 0 \<Longrightarrow> cmp b c < 0 \<Longrightarrow> cmp a c < 0"
  unfolding consistent_comparator_iff by blast

lemma consistent_trans_gt:
  "consistent_comparator cmp xs \<Longrightarrow> a \<in> set xs \<Longrightarrow> b \<in> set xs \<Longrightarrow> c \<in> set xs
     \<Longrightarrow> cmp a b > 0 \<Longrightarrow> cmp b c > 0 \<Longrightarrow> cmp a c > 0"
  unfolding consistent_comparator_iff by blast

lemma consistent_gt_lt:
  assumes "consistent_comparator cmp xs" "a \<in> set xs" "b \<in> set xs" "cmp a b > 0"
  shows "cmp b a < 0"
proof (rule ccontr)
  assume "\<not> cmp b a < 0"
  then consider "cmp b a = 0" | "cmp b a > 0" by linarith
  then show False
  proof cases
    case 1
    with assms have "cmp a b = 0" by (intro consistent_sym [of cmp xs b a])
    with assms(4) show False by simp
  next
    case 2
    with assms have "cmp a a > 0" by (intro consistent_trans_gt [of cmp xs a b a])
    with consistent_refl [OF assms(1,2)] show False by simp
  qed
qed

lemma consistent_lt_gt:
  assumes "consistent_comparator cmp xs" "a \<in> set xs" "b \<in> set xs" "cmp a b < 0"
  shows "cmp b a > 0"
proof (rule ccontr)
  assume "\<not> cmp b a > 0"
  then consider "cmp b a = 0" | "cmp b a < 0" by linarith
  then show False
  proof cases
    case 1
    with assms have "cmp a b = 0" by (intro consistent_sym [of cmp xs b a])
    with assms(4) show False by simp
  next
    case 2
    with assms have "cmp a a < 0" by (intro consistent_trans_lt [of cmp xs a b a])
    with consistent_refl [OF assms(1,2)] show False by simp
  qed
qed

lemma consistent_trans_le:
  assumes con: "consistent_comparator cmp xs" and mem: "a \<in> set xs" "b \<in> set xs" "c \<in> set xs"
    and ab: "cmp a b \<le> 0" and bc: "cmp b c \<le> 0"
  shows "cmp a c \<le> 0"
proof (rule ccontr)
  assume "\<not> cmp a c \<le> 0"
  then have ac: "cmp a c > 0" by simp
  then have ca: "cmp c a < 0" using con mem by (intro consistent_gt_lt [of cmp xs a c])
  show False
  proof (cases "cmp a b = 0")
    case True
    then have ba: "cmp b a = 0" using con mem by (intro consistent_sym [of cmp xs a b])
    show ?thesis
    proof (cases "cmp b c = 0")
      case True
      with \<open>cmp a b = 0\<close> have "cmp a c = 0"
        using con mem by (intro consistent_trans_eq [of cmp xs a b c])
      with ac show ?thesis by simp
    next
      case False
      with bc have "cmp b c < 0" by simp
      with ca have "cmp b a < 0" using con mem by (intro consistent_trans_lt [of cmp xs b c a])
      with ba show ?thesis by simp
    qed
  next
    case False
    with ab have lt: "cmp a b < 0" by simp
    with ca have cb: "cmp c b < 0" using con mem by (intro consistent_trans_lt [of cmp xs c a b])
    then have "cmp b c > 0" using con mem by (intro consistent_lt_gt [of cmp xs c b])
    with bc show ?thesis by simp
  qed
qed


lemma set_insert_sorted: "set (insert_sorted cmp x ys) = insert x (set ys)"
  using mset_insert_sorted [of cmp x ys] by (metis set_mset_add_mset_insert set_mset_mset)

lemma sorted_insert_sorted:
  assumes con: "consistent_comparator cmp zs" and x: "x \<in> set zs"
  shows "set ys \<subseteq> set zs \<Longrightarrow> sorted_wrt (\<lambda>a b. cmp a b \<le> 0) ys
           \<Longrightarrow> sorted_wrt (\<lambda>a b. cmp a b \<le> 0) (insert_sorted cmp x ys)"
proof (induction ys)
  case Nil
  show ?case by simp
next
  case (Cons y ys)
  from Cons.prems have y: "y \<in> set zs" and ys: "set ys \<subseteq> set zs" by simp_all
  show ?case
  proof (cases "cmp x y > 0")
    case True
    then have "cmp y x < 0" using con x y by (intro consistent_gt_lt [of cmp zs x y])
    then have "cmp y x \<le> 0" by simp
    moreover have "sorted_wrt (\<lambda>a b. cmp a b \<le> 0) (insert_sorted cmp x ys)"
      using Cons.IH ys Cons.prems(2) by simp
    ultimately show ?thesis using True Cons.prems(2) by (auto simp: set_insert_sorted)
  next
    case False
    then have xy: "cmp x y \<le> 0" by simp
    have "cmp x z \<le> 0" if "z \<in> set ys" for z
    proof -
      from that Cons.prems(2) have "cmp y z \<le> 0" by simp
      moreover from that ys have "z \<in> set zs" by blast
      ultimately show ?thesis using xy con x y by (intro consistent_trans_le [of cmp zs x y z])
    qed
    with False xy Cons.prems(2) show ?thesis by auto
  qed
qed

lemma sorted_insertion_sort:
  assumes "consistent_comparator cmp xs"
  shows "sorted_wrt (\<lambda>a b. cmp a b \<le> 0) (insertion_sort cmp xs)"
proof -
  have "set ys \<subseteq> set xs \<Longrightarrow> sorted_wrt (\<lambda>a b. cmp a b \<le> 0) (insertion_sort cmp ys)" for ys
  proof (induction ys)
    case Nil
    show ?case by (simp add: insertion_sort_Nil)
  next
    case (Cons y ys)
    then show ?case
      using sorted_insert_sorted [OF assms, of y "insertion_sort cmp ys"]
      by (simp add: insertion_sort_Cons set_insertion_sort)
  qed
  then show ?thesis by simp
qed

lemma filter_insert_sorted:
  "(\<And>y. y \<in> set ys \<Longrightarrow> cmp x y > 0 \<Longrightarrow> \<not> P y)
     \<Longrightarrow> filter P (insert_sorted cmp x ys) = filter P (x # ys)"
  by (induction ys) auto

lemma stable_insertion_sort:
  assumes con: "consistent_comparator cmp xs" and a: "a \<in> set xs"
  shows "filter (\<lambda>y. cmp a y = 0) (insertion_sort cmp xs) = filter (\<lambda>y. cmp a y = 0) xs"
proof -
  have "set ys \<subseteq> set xs
          \<Longrightarrow> filter (\<lambda>y. cmp a y = 0) (insertion_sort cmp ys) = filter (\<lambda>y. cmp a y = 0) ys" for ys
  proof (induction ys)
    case Nil
    show ?case by (simp add: insertion_sort_Nil)
  next
    case (Cons x ys)
    then have x: "x \<in> set xs" and ys: "set ys \<subseteq> set xs" by simp_all
    have passed: "\<not> (cmp a x = 0 \<and> cmp a y = 0)" if "y \<in> set xs" "cmp x y > 0" for y
    proof
      assume e: "cmp a x = 0 \<and> cmp a y = 0"
      then have "cmp x a = 0" using con a x by (intro consistent_sym [of cmp xs a x]) simp_all
      with e have "cmp x y = 0"
        using con a x that(1) by (intro consistent_trans_eq [of cmp xs x a y]) simp_all
      with that(2) show False by simp
    qed
    have "filter (\<lambda>y. cmp a y = 0) (insert_sorted cmp x (insertion_sort cmp ys))
            = filter (\<lambda>y. cmp a y = 0) (x # insertion_sort cmp ys)"
    proof (cases "cmp a x = 0")
      case True
      show ?thesis
      proof (rule filter_insert_sorted)
        fix y assume "y \<in> set (insertion_sort cmp ys)" "cmp x y > 0"
        with ys have "y \<in> set xs" "cmp x y > 0" by (auto simp: set_insertion_sort)
        with passed True show "\<not> cmp a y = 0" by blast
      qed
    next
      case False
      have "filter (\<lambda>y. cmp a y = 0) (insert_sorted cmp x zs) = filter (\<lambda>y. cmp a y = 0) zs" for zs
        using False by (induction zs) auto
      with False show ?thesis by simp
    qed
    with Cons.IH ys show ?case by (simp add: insertion_sort_Cons)
  qed
  then show ?thesis by simp
qed





lemma array_sort_consistent:
  "consistent_comparator cmp xs \<Longrightarrow> array_sort cmp xs = insertion_sort cmp xs"
  by (simp add: array_sort_def)



lemma array_sort_Nil: "array_sort cmp [] = []"
  by (simp add: array_sort_def consistent_comparator_def insertion_sort_Nil)


text \<open>
  Under a consistent comparator \<open>array_sort\<close> meets what ECMAScript requires of the
  sort: the result is a permutation of the elements, no element is followed by one it
  compares greater than, and elements that compare equal keep their order.
\<close>

lemma array_sort_conforms:
  assumes "consistent_comparator cmp xs"
  shows "mset (array_sort cmp xs) = mset xs"
    and "sorted_wrt (\<lambda>a b. cmp a b \<le> 0) (array_sort cmp xs)"
    and "a \<in> set xs \<Longrightarrow>
           filter (\<lambda>y. cmp a y = 0) (array_sort cmp xs) = filter (\<lambda>y. cmp a y = 0) xs"
  using assms
  by (simp_all add: array_sort_consistent mset_insertion_sort sorted_insertion_sort
      stable_insertion_sort)

lemma str_lt_lexord:
  "str_lt a b \<longleftrightarrow> (map of_char a, map of_char b) \<in> lexord {(x, y :: nat). x < y}"
  by (induction a b rule: str_lt.induct) auto

lemma str_lt_irrefl: "\<not> str_lt a a"
  by (simp add: str_lt_lexord lexord_irreflexive)

lemma str_lt_trans: "str_lt a b \<Longrightarrow> str_lt b c \<Longrightarrow> str_lt a c"
  unfolding str_lt_lexord by (erule lexord_trans) (auto simp: trans_def)

lemma str_lt_total: "str_lt a b \<or> a = b \<or> str_lt b a"
proof -
  have "(map of_char a, map of_char b) \<in> lexord {(x, y :: nat). x < y}
        \<or> map of_char a = (map of_char b :: nat list)
        \<or> (map of_char b, map of_char a) \<in> lexord {(x, y :: nat). x < y}"
    by (rule lexord_linear) auto
  moreover have "a = b" if "map of_char a = (map of_char b :: nat list)"
    using that by (induction a arbitrary: b) (auto simp: map_eq_Cons_conv)
  ultimately show ?thesis by (auto simp: str_lt_lexord)
qed

lemma str_lt_asym: "str_lt a b \<Longrightarrow> \<not> str_lt b a"
  using str_lt_trans [of a b a] str_lt_irrefl [of a] by blast

text \<open>Comparators built from a strict order on the key values are consistent.\<close>

lemma consistent_comparator_ordered:
  fixes lt :: "'v \<Rightarrow> 'v \<Rightarrow> bool"
  assumes irrefl: "\<And>u. \<not> lt u u"
    and trans: "\<And>u v w. lt u v \<Longrightarrow> lt v w \<Longrightarrow> lt u w"
    and total: "\<And>u v. lt u v \<or> u = v \<or> lt v u"
    and neg: "\<And>a b. a \<in> set xs \<Longrightarrow> b \<in> set xs \<Longrightarrow> (cmp a b < 0) = lt (g a) (g b)"
    and pos: "\<And>a b. a \<in> set xs \<Longrightarrow> b \<in> set xs \<Longrightarrow> (cmp a b > 0) = lt (g b) (g a)"
  shows "consistent_comparator cmp xs"
proof -
  have zero: "(cmp a b = 0) = (g a = g b)" if "a \<in> set xs" "b \<in> set xs" for a b
  proof -
    have "(cmp a b = 0) = (\<not> cmp a b < 0 \<and> \<not> cmp a b > 0)" by linarith
    also have "\<dots> = (\<not> lt (g a) (g b) \<and> \<not> lt (g b) (g a))"
      using that by (simp add: neg pos)
    also have "\<dots> = (g a = g b)"
      using irrefl total by metis
    finally show ?thesis .
  qed
  show ?thesis
    unfolding consistent_comparator_iff
    by (auto simp: zero neg pos intro: trans)
qed


lemma consistent_comparator_zero: "(\<And>a b. cmp a b = 0) \<Longrightarrow> consistent_comparator cmp xs"
  by (simp add: consistent_comparator_iff)

lemma comparable_keys_cases:
  assumes "comparable_keys k xs"
  obtains (numbers) g where "\<And>e. e \<in> set xs \<Longrightarrow> get e k = Num (g e)"
    | (strings) g where "\<And>e. e \<in> set xs \<Longrightarrow> get e k = Str (g e)"
proof (cases "list_all (\<lambda>e. is_Num (get e k)) xs")
  case True
  then have "get e k = Num (case get e k of Num n \<Rightarrow> n | _ \<Rightarrow> 0)" if "e \<in> set xs" for e
    using that by (auto simp: list_all_iff is_Num_def split: jsval.splits)
  then show ?thesis by (rule numbers)
next
  case False
  with assms have "list_all (\<lambda>e. is_Str (get e k)) xs" by (simp add: comparable_keys_def)
  then have "get e k = Str (case get e k of Str s \<Rightarrow> s | _ \<Rightarrow> [])" if "e \<in> set xs" for e
    using that by (auto simp: list_all_iff is_Str_def split: jsval.splits)
  then show ?thesis by (rule strings)
qed

lemma consistent_sortData_compare:
  assumes "comparable_keys k xs"
  shows "consistent_comparator (sortData_compare k ord) xs"
  using assms
proof (cases rule: comparable_keys_cases)
  case (numbers g)
  show ?thesis
  proof (cases "ord = ''asc''")
    case True
    show ?thesis
      by (rule consistent_comparator_ordered [where lt = "(<)" and g = g])
        (auto simp: sortData_compare_def js_gt_def ToNumber_def numbers True)
  next
    case False
    show ?thesis
      by (rule consistent_comparator_ordered [where lt = "\<lambda>u v. v < u" and g = g])
        (auto simp: sortData_compare_def js_gt_def ToNumber_def numbers False)
  qed
next
  case (strings g)
  show ?thesis
  proof (cases "ord = ''asc''")
    case True
    show ?thesis
    proof (rule consistent_comparator_ordered [where lt = str_lt and g = g])
      show "\<not> str_lt u u" for u by (rule str_lt_irrefl)
      show "str_lt u v \<Longrightarrow> str_lt v w \<Longrightarrow> str_lt u w" for u v w by (rule str_lt_trans)
      show "str_lt u v \<or> u = v \<or> str_lt v u" for u v by (rule str_lt_total)
      show "(sortData_compare k ord a b < 0) = str_lt (g a) (g b)"
        if "a \<in> set xs" "b \<in> set xs" for a b
        using that str_lt_asym [of "g a" "g b"]
        by (auto simp: sortData_compare_def js_gt_def strings True)
      show "(sortData_compare k ord a b > 0) = str_lt (g b) (g a)"
        if "a \<in> set xs" "b \<in> set xs" for a b
        using that str_lt_asym [of "g a" "g b"]
        by (auto simp: sortData_compare_def js_gt_def strings True)
    qed
  next
    case False
    show ?thesis
    proof (rule consistent_comparator_ordered [where lt = "\<lambda>u v. str_lt v u" and g = g])
      show "\<not> str_lt u u" for u by (rule str_lt_irrefl)
      show "str_lt v u \<Longrightarrow> str_lt w v \<Longrightarrow> str_lt w u" for u v w
        using str_lt_trans [of w v u] by simp
      show "str_lt v u \<or> u = v \<or> str_lt u v" for u v
        using str_lt_total [of u v] by blast
      show "(sortData_compare k ord a b < 0) = str_lt (g b) (g a)"
        if "a \<in> set xs" "b \<in> set xs" for a b
        using that str_lt_asym [of "g a" "g b"]
        by (auto simp: sortData_compare_def js_gt_def strings False)
      show "(sortData_compare k ord a b > 0) = str_lt (g a) (g b)"
        if "a \<in> set xs" "b \<in> set xs" for a b
        using that str_lt_asym [of "g a" "g b"]
        by (auto simp: sortData_compare_def js_gt_def strings False)
    qed
  qed
qed

lemma consistent_orderBy_compare:
  assumes "comparable_keys (key sc) xs"
  shows "consistent_comparator (orderBy_compare sc) xs"
proof -
  consider (zero) "order sc = 0" | (up) "order sc > 0" | (down) "order sc < 0" by linarith
  then show ?thesis
  proof cases
    case zero
    then show ?thesis
      by (intro consistent_comparator_zero) (simp add: orderBy_compare_def)
  next
    case up
    from assms show ?thesis
    proof (cases rule: comparable_keys_cases)
      case (numbers g)
      show ?thesis
        by (rule consistent_comparator_ordered [where lt = "(<)" and g = g])
          (use up in \<open>auto simp: orderBy_compare_def js_gt_def ToNumber_def numbers\<close>)
    next
      case (strings g)
      show ?thesis
      proof (rule consistent_comparator_ordered [where lt = str_lt and g = g])
        show "\<not> str_lt u u" for u by (rule str_lt_irrefl)
        show "str_lt u v \<Longrightarrow> str_lt v w \<Longrightarrow> str_lt u w" for u v w by (rule str_lt_trans)
        show "str_lt u v \<or> u = v \<or> str_lt v u" for u v by (rule str_lt_total)
        show "(orderBy_compare sc a b < 0) = str_lt (g a) (g b)"
          if "a \<in> set xs" "b \<in> set xs" for a b
          using that up str_lt_asym [of "g a" "g b"]
          by (auto simp: orderBy_compare_def js_gt_def strings)
        show "(orderBy_compare sc a b > 0) = str_lt (g b) (g a)"
          if "a \<in> set xs" "b \<in> set xs" for a b
          using that up str_lt_asym [of "g a" "g b"]
          by (auto simp: orderBy_compare_def js_gt_def strings)
      qed
    qed
  next
    case down
    from assms show ?thesis
    proof (cases rule: comparable_keys_cases)
      case (numbers g)
      show ?thesis
        by (rule consistent_comparator_ordered [where lt = "\<lambda>u v. v < u" and g = g])
          (use down in \<open>auto simp: orderBy_compare_def js_gt_def ToNumber_def numbers\<close>)
    next
      case (strings g)
      show ?thesis
      proof (rule consistent_comparator_ordered [where lt = "\<lambda>u v. str_lt v u" and g = g])
        show "\<not> str_lt u u" for u by (rule str_lt_irrefl)
        show "str_lt v u \<Longrightarrow> str_lt w v \<Longrightarrow> str_lt w u" for u v w
          using str_lt_trans [of w v u] by simp
        show "str_lt v u \<or> u = v \<or> str_lt u v" for u v
          using str_lt_total [of u v] by blast
        show "(orderBy_compare sc a b < 0) = str_lt (g b) (g a)"
          if "a \<in> set xs" "b \<in> set xs" for a b
          using that down str_lt_asym [of "g a" "g b"]
          by (auto simp: orderBy_compare_def js_gt_def strings)
        show "(orderBy_compare sc a b > 0) = str_lt (g a) (g b)"
          if "a \<in> set xs" "b \<in> set xs" for a b
          using that down str_lt_asym [of "g a" "g b"]
          by (auto simp: orderBy_compare_def js_gt_def strings)
      qed
    qed
  qed
qed

lemma array_sort_sortData_comparable:
  "comparable_keys k xs
     \<Longrightarrow> array_sort (sortData_compare k ord) xs = insertion_sort (sortData_compare k ord) xs"
  by (intro array_sort_consistent consistent_sortData_compare)

lemma array_sort_orderBy_comparable:
  "comparable_keys (key sc) xs
     \<Longrightarrow> array_sort (orderBy_compare sc) xs = insertion_sort (orderBy_compare sc) xs"
  by (intro array_sort_consistent consistent_orderBy_compare)

lemma sort_column_eta: "\<lparr>key = key sc, order = order sc\<rparr> = (sc :: 'o sort_column)"
  by (cases sc) simp

text \<open>
  In table-old.js \<open>filterByTerm\<close> hands the array that \<open>data.filter\<close> returns to
  \<open>orderBy\<close>, so the variable \<open>filtered\<close> ends as that array sorted.
\<close>

lemma filterByTerm_filtered:
  assumes "searchTerm \<noteq> []"
  shows "filtered (filterByTerm searchTerm c)
           = array_sort (orderBy_compare (sortColumn c))
               (filterByTerm_filter (columns c) searchTerm (data c))"
  using assms
  by (simp add: filterByTerm_def orderBy_def tablePage_render_def Let_def sort_column_eta)

lemma sortData_compare_desc_Num:
  "sortData_compare ''n'' ''desc'' [''n'' \<mapsto> Num a] [''n'' \<mapsto> Num b]
     = of_bool (a < b) - of_bool (b < a)"
  by (simp add: sortData_compare_def get_def js_gt_def ToNumber_def)

lemma orderBy_compare_name:
  "orderBy_compare \<lparr>key = ''name'', order = 1\<rparr> a b
     = (if js_lt (get b ''name'') (get a ''name'') then 1
        else if js_lt (get a ''name'') (get b ''name'') then - 1 else 0)"
  by (simp add: orderBy_compare_def js_gt_def)

subsection \<open>The page buttons\<close>

lemma pageButtons_finite:
  "pageButtons i (Some p) nav = Some (nav @ map (\<lambda>j. j + 1) [i..p - 1])"
proof (induction "nat (p - i)" arbitrary: i nav)
  case 0
  then have "\<not> i < p" by simp
  then show ?case by (subst pageButtons.simps) simp
next
  case (Suc n)
  then have lt: "i < p" and n: "n = nat (p - (i + 1))" by linarith+
  from n have "pageButtons (i + 1) (Some p) (nav @ [i + 1])
      = Some ((nav @ [i + 1]) @ map (\<lambda>j. j + 1) [i + 1..p - 1])"
    by (rule Suc.hyps(1))
  moreover have "[i..p - 1] = i # [i + 1..p - 1]" using lt by (simp add: upto_rec1)
  ultimately show ?case using lt by (subst pageButtons.simps) simp
qed

lemma pageButtons_bounded:
  assumes "pageButtons i pgs nav = Some y"
  shows "pgs \<noteq> None"
proof (rule pageButtons.raw_induct [where P = "\<lambda>i pgs nav y. pgs \<noteq> None", OF _ assms])
  fix f :: "int \<Rightarrow> int option \<Rightarrow> int list \<Rightarrow> int list option"
  fix i pgs nav y
  assume IH: "\<And>i pgs nav y. f i pgs nav = Some y \<Longrightarrow> pgs \<noteq> None"
    and step: "(if case pgs of None \<Rightarrow> True | Some p \<Rightarrow> i < p
                then f (i + 1) pgs (nav @ [i + 1]) else Some nav) = Some y"
  show "pgs \<noteq> None"
  proof
    assume "pgs = None"
    with step have "f (i + 1) None (nav @ [i + 1]) = Some y" by simp
    then have "(None :: int option) \<noteq> None" by (rule IH)
    then show False by simp
  qed
qed

lemma pageButtons_Infinity: "pageButtons i None nav = None"
  using pageButtons_bounded [of i None nav] by (cases "pageButtons i None nav") auto

lemma renderPagination_returns:
  "this_pageSize s \<noteq> 0 \<Longrightarrow> \<exists>nav. renderPagination s = Some nav"
  by (simp add: renderPagination_def pages_def pageButtons_finite)

lemma render_nav_returns: "this_pageSize s \<noteq> 0 \<Longrightarrow> \<exists>nav. render_nav s = Some nav"
  using renderPagination_returns [of "DataTable_paginate s"]
  by (simp add: render_nav_def DataTable_paginate_def)

lemma array_sort_singleton: "cmp x x = 0 \<Longrightarrow> array_sort cmp [x] = [x]"
  by (simp add: array_sort_def consistent_comparator_def insertion_sort_def)

lemma array_sort_sortData_singleton: "array_sort (sortData_compare k ord) [x] = [x]"
  by (rule array_sort_singleton) (simp add: sortData_compare_def js_gt_def)

text \<open>
  With the page size 0 and a record to show, the loop of \<open>renderPagination\<close> has the
  bound \<open>Infinity\<close>, and the constructor does not return.
\<close>

lemma DataTable_constructor_pageSize_0:
  "DataTable_constructor (ex_options\<lparr>opt_pageSize := Some 0\<rparr>) = None
   \<and> DataTable_constructor_part000 (ex_options\<lparr>opt_pageSize := Some 0\<rparr>) = None"
  by (simp add: ex_options_def ex_column_def DataTable_constructor_def
      DataTable_constructor_part000_def new_fields_def initData_def initData_part000_def
      sortData_def sortData_part000_def render_nav_def renderPagination_def
      DataTable_paginate_def pages_def pageButtons_Infinity array_sort_sortData_singleton
      Let_def)

section \<open>The claims\<close>

text \<open>
  C1. For radius 2 the \<open>items\<close> that \<open>createPagination\<close> and \<open>renderPagination\<close> build
  are the token sequence of the specification's algorithm for every current page and
  every number of pages: empty when there is at most one page, and otherwise the leading
  segment, the integers from \<open>max(1, currentPage - 2)\<close> to
  \<open>min(totalPages, currentPage + 2)\<close>, and the trailing segment. The four cases the
  specification lists come out as it says.
\<close>

theorem pagination_window_is_spec:
  "createPagination_items page totalPages = window_spec page totalPages 2
   \<and> renderPagination_items page totalPages = window_spec page totalPages 2
   \<and> createPagination_items 1 1 = []
   \<and> createPagination_items 1 10 = [Page 1, Page 2, Page 3, Ellipse, Page 10]
   \<and> createPagination_items 5 10
       = [Page 1, Ellipse, Page 3, Page 4, Page 5, Page 6, Page 7, Ellipse, Page 10]
   \<and> createPagination_items 9 10 = [Page 1, Ellipse, Page 7, Page 8, Page 9, Page 10]"
proof -
  have "createPagination_items 1 1 = []"
    by (simp add: createPagination_items_def)
  moreover have "createPagination_items 1 10 = [Page 1, Page 2, Page 3, Ellipse, Page 10]"
    by (simp add: createPagination_items_def paginationRange_def range_js_def upt_rec)
  moreover have "createPagination_items 5 10
      = [Page 1, Ellipse, Page 3, Page 4, Page 5, Page 6, Page 7, Ellipse, Page 10]"
    by (simp add: createPagination_items_def paginationRange_def range_js_def upt_rec)
  moreover have "createPagination_items 9 10
      = [Page 1, Ellipse, Page 7, Page 8, Page 9, Page 10]"
    by (simp add: createPagination_items_def paginationRange_def range_js_def upt_rec)
  ultimately show ?thesis
    by (simp only: createPagination_items_spec renderPagination_items_spec simp_thms)
qed

text \<open>
  C8. The token sequence never has two ellipsis markers next to each other. This holds
  for every current page and every number of pages, so in particular for a current page
  between 1 and the number of pages.
\<close>

theorem pagination_window_no_adjacent_ellipses:
  "\<not> adjacent_ellipses (createPagination_items page totalPages)
   \<and> \<not> adjacent_ellipses (renderPagination_items page totalPages)"
  by (simp add: createPagination_items_spec renderPagination_items_spec
      window_spec_no_adjacent)

text \<open>
  C3. For a positive page size the number of pages is \<open>ceil(length / pageSize)\<close>, the
  pages 1 to that number, concatenated in order, are the data, no page is longer than
  the page size, and every page before the last has exactly the page size.
\<close>

theorem paginate_concat:
  assumes "0 < psize"
  shows "\<exists>totalPages. pages (length filteredData) psize = Some totalPages
           \<and> concat (map (\<lambda>p. paginate filteredData p psize) [1..totalPages]) = filteredData
           \<and> (\<forall>p. length (paginate filteredData p psize) \<le> nat psize)
           \<and> (\<forall>p. 1 \<le> p \<and> p < totalPages
                 \<longrightarrow> length (paginate filteredData p psize) = nat psize)"
proof -
  define t where "t = - ((- int (length filteredData)) div psize)"
  have t0: "0 \<le> t" unfolding t_def using assms by (intro ceil_div_nonneg) simp_all
  have cover: "int (length filteredData) \<le> t * psize"
    unfolding t_def using assms by (rule ceil_div_bounds(1))
  have below: "(t - 1) * psize < int (length filteredData)"
    unfolding t_def using assms by (rule ceil_div_bounds(2))
  have 1: "pages (length filteredData) psize = Some t"
    using assms by (simp add: pages_pos t_def)
  have "int (length filteredData) \<le> int (nat psize * nat t)"
    using cover t0 assms by (simp add: mult.commute)
  then have len: "length filteredData \<le> nat psize * nat t" by linarith
  have "concat (map (\<lambda>p. paginate filteredData p psize) [1..int (nat t)])
          = take (nat psize * nat t) filteredData"
    using assms by (rule concat_pages)
  then have 2: "concat (map (\<lambda>p. paginate filteredData p psize) [1..t]) = filteredData"
    using t0 len by simp
  have 3: "length (paginate filteredData p psize) \<le> nat psize" for p
    using assms by (rule length_paginate_le)
  have 4: "length (paginate filteredData p psize) = nat psize" if "1 \<le> p" "p < t" for p
  proof -
    have "p * psize \<le> (t - 1) * psize"
      using that assms by (intro mult_right_mono) simp_all
    then have "p * psize < int (length filteredData)" using below by linarith
    moreover have "int (nat psize * nat (p - 1) + nat psize) = p * psize"
      using that assms by (simp add: algebra_simps)
    ultimately have "nat psize * nat (p - 1) + nat psize \<le> length filteredData"
      by linarith
    then show ?thesis using that assms by (simp add: paginate_nat)
  qed
  from 1 2 3 4 show ?thesis by blast
qed

theorem paginate_concat_witness:
  "(0::int) < 2
   \<and> pages (length [10, 20, 30, 40, 50 :: nat]) 2 = Some 3
   \<and> concat (map (\<lambda>p. paginate [10, 20, 30, 40, 50 :: nat] p 2) [1..3]) = [10, 20, 30, 40, 50]
   \<and> length (paginate [10, 20, 30, 40, 50 :: nat] 1 2) = 2
   \<and> length (paginate [10, 20, 30, 40, 50 :: nat] 2 2) = 2
   \<and> paginate [10, 20, 30, 40, 50 :: nat] 3 2 = [50]"
proof -
  have h: "(0::int) < 2" by simp
  from paginate_concat [OF h, of "[10, 20, 30, 40, 50 :: nat]"]
  obtain t where t: "pages (length [10, 20, 30, 40, 50 :: nat]) 2 = Some t"
    and c: "concat (map (\<lambda>p. paginate [10, 20, 30, 40, 50 :: nat] p 2) [1..t])
              = [10, 20, 30, 40, 50]"
    and l: "\<forall>p. 1 \<le> p \<and> p < t \<longrightarrow> length (paginate [10, 20, 30, 40, 50 :: nat] p 2) = nat 2"
    by blast
  have p3: "pages (length [10, 20, 30, 40, 50 :: nat]) 2 = Some 3"
    by (simp add: pages_pos)
  with t have t3: "t = 3" by simp
  have last: "paginate [10, 20, 30, 40, 50 :: nat] 3 2 = [50]"
    by (simp add: paginate_def slice_def relative_index_def)
  from l t3 have "length (paginate [10, 20, 30, 40, 50 :: nat] 1 2) = 2"
    and "length (paginate [10, 20, 30, 40, 50 :: nat] 2 2) = 2" by simp_all
  with h p3 c t3 last show ?thesis by simp
qed

text \<open>
  C2, evaluated. The search input of a \<open>tablePage\<close> holds the text \<open>Ann\<close>. The key
  listener filters by the trimmed, lower-cased term \<open>ann\<close> and keeps Ann and Joanne.
  When \<open>update\<close> is then called with the same records, \<open>init\<close> hands the text of the
  input to \<open>filterByTerm\<close> as it stands: no lower-cased value contains \<open>Ann\<close>, and no
  record is kept.
\<close>

theorem update_reapplies_raw_text:
  "map (\<lambda>r. get r ''name'') (filtered (searchInput_keyup ''Ann'' ex_closure))
     = [Str ''Ann'', Str ''Joanne'']
   \<and> searchInput_value (searchInput_keyup ''Ann'' ex_closure) = ''Ann''
   \<and> filtered (update ex_records (searchInput_keyup ''Ann'' ex_closure)) = []"
  by (simp add: ex_closure_def ex_records_def ex_column_def searchInput_keyup_def update_def
      init_def filterByTerm_def filterByTerm_filter_def orderBy_def tablePage_render_def
      array_sort_orderBy_comparable array_sort_Nil comparable_keys_def is_Num_def is_Str_def
      insertion_sort_def orderBy_compare_name get_def ToString_def toLowerCase_def
      lower_char_def trim_def is_space_def Let_def)



text \<open>
  C7, as stated, fails: with an element, one column \<open>name\<close> and the initial sort column
  \<open>zzz\<close>, which matches no column, each constructor and \<open>tablePage\<close> return normally;
  so they do with an empty column list and an explicit sort column.
\<close>

theorem construction_counterexample:
  "opt_element ex_options \<noteq> None
   \<and> opt_columns ex_options \<noteq> []
   \<and> find (\<lambda>col. key col = ''zzz'') (opt_columns ex_options) = None
   \<and> opt_sortColumn ex_options = Some \<lparr>key = ''zzz'', order = ''asc''\<rparr>
   \<and> map_option isl (DataTable_constructor ex_options) = Some False
   \<and> map_option isl (DataTable_constructor_part000 ex_options) = Some False
   \<and> map_option isl (DataTable_constructor (ex_options\<lparr>opt_columns := []\<rparr>)) = Some False
   \<and> \<not> isl (tablePage ex_args)
   \<and> \<not> isl (tablePage (ex_args\<lparr>arg_columns := []\<rparr>))"
  by (simp add: ex_options_def ex_args_def ex_column_def DataTable_constructor_def
      DataTable_constructor_part000_def tablePage_def new_fields_def initData_def
      initData_part000_def sortData_def sortData_part000_def render_nav_def
      renderPagination_def DataTable_paginate_def pages_pos array_sort_sortData_singleton
      array_sort_Nil Let_def)

text \<open>
  C7, amended. Let the parameters bind, that is, let the column list be non-empty or a
  sort column be passed (what the default sort column does on an empty column list is
  left open). Without an element the constructors throw the error
  \<open>Element not provided!\<close>, and \<open>tablePage\<close> without a container the error
  \<open>Element not found.\<close>: nothing is constructed. With an element and a positive page
  size the constructors return an instance, whatever the key of the sort column.
  \<open>tablePage\<close> with a container returns (the update function, or \<open>undefined\<close> for no
  data without \<open>hasRefresh\<close>), except that it throws a \<open>TypeError\<close> when it shows the
  search input and the document gives none for \<open>.search\<close>.
\<close>

theorem construction_throws:
  assumes "opt_columns opts \<noteq> [] \<or> opt_sortColumn opts \<noteq> None"
    and "arg_columns args \<noteq> [] \<or> arg_sortColumn args \<noteq> None"
  shows "(if opt_element opts = None
          then DataTable_constructor opts = Some (Inl (Error ''Element not provided!''))
             \<and> DataTable_constructor_part000 opts = Some (Inl (Error ''Element not provided!''))
          else if (case opt_pageSize opts of None \<Rightarrow> True | Some n \<Rightarrow> 0 < n)
          then (\<exists>s. DataTable_constructor opts = Some (Inr s))
             \<and> (\<exists>s. DataTable_constructor_part000 opts = Some (Inr s))
          else True)
       \<and> (if arg_container args = None
          then tablePage args = Inl (Error ''Element not found.'')
          else if arg_data args = [] \<and> arg_hasRefresh args \<noteq> Some True
          then tablePage args = Inr \<lparr>container_shows = Only_NoRecordsCard, returned = None\<rparr>
          else if arg_showSearch args \<noteq> Some False \<and> document_search args = None
          then tablePage args = Inl TypeError
          else (\<exists>c. tablePage args = Inr \<lparr>container_shows = Root, returned = Some c\<rparr>))"
proof -
  have "\<exists>sc. (case opt_sortColumn opts of
      None \<Rightarrow> default_sortColumn (opt_columns opts) ''asc'' | Some sc \<Rightarrow> Inr sc) = Inr sc"
    using assms(1)
    by (cases "opt_sortColumn opts"; cases "opt_columns opts")
      (simp_all add: default_sortColumn_def)
  then obtain sc where sc: "(case opt_sortColumn opts of
      None \<Rightarrow> default_sortColumn (opt_columns opts) ''asc'' | Some sc \<Rightarrow> Inr sc) = Inr sc"
    by blast
  have throw: "DataTable_constructor opts = Some (Inl (Error ''Element not provided!''))
      \<and> DataTable_constructor_part000 opts = Some (Inl (Error ''Element not provided!''))"
    if "opt_element opts = None"
    using that sc by (simp add: DataTable_constructor_def DataTable_constructor_part000_def)
  have ok: "(\<exists>s. DataTable_constructor opts = Some (Inr s))
      \<and> (\<exists>s. DataTable_constructor_part000 opts = Some (Inr s))"
    if el: "opt_element opts \<noteq> None"
      and ps: "case opt_pageSize opts of None \<Rightarrow> True | Some n \<Rightarrow> 0 < n"
  proof -
    from el obtain el' where el': "opt_element opts = Some el'" by blast
    have p3: "this_pageSize (new_fields opts 3 sc) \<noteq> 0"
      and p20: "this_pageSize (new_fields opts 20 sc) \<noteq> 0"
      using ps by (auto simp: new_fields_def split: option.splits)
    have "this_pageSize (initData xs (new_fields opts 3 sc)) \<noteq> 0" for xs
      using p3 by (simp add: initData_def sortData_def Let_def)
    then obtain nav where "render_nav (initData (opt_data opts) (new_fields opts 3 sc)) = Some nav"
      using render_nav_returns by blast
    moreover have "this_pageSize (initData_part000 xs (new_fields opts 20 sc)) \<noteq> 0" for xs
      using p20 by (simp add: initData_part000_def sortData_part000_def Let_def)
    then obtain nav' where
      "render_nav (initData_part000 (opt_data opts) (new_fields opts 20 sc)) = Some nav'"
      using render_nav_returns by blast
    ultimately show ?thesis
      using sc el'
      by (simp add: DataTable_constructor_def DataTable_constructor_part000_def Let_def
          new_fields_def)
  qed
  have tp: "if arg_container args = None
          then tablePage args = Inl (Error ''Element not found.'')
          else if arg_data args = [] \<and> arg_hasRefresh args \<noteq> Some True
          then tablePage args = Inr \<lparr>container_shows = Only_NoRecordsCard, returned = None\<rparr>
          else if arg_showSearch args \<noteq> Some False \<and> document_search args = None
          then tablePage args = Inl TypeError
          else (\<exists>c. tablePage args = Inr \<lparr>container_shows = Root, returned = Some c\<rparr>)"
    using assms(2)
    by (auto simp: tablePage_def default_sortColumn_def Let_def
        split: option.splits list.splits)
  from throw ok tp show ?thesis by simp
qed

text \<open>
  C7, at inputs: the options and arguments with the sort column \<open>zzz\<close> construct; the
  same without the element or the container throw the two errors; and \<open>tablePage\<close> on a
  document that gives no search input throws the \<open>TypeError\<close>.
\<close>

theorem construction_throws_witness:
  "map_option isl (DataTable_constructor ex_options) = Some False
   \<and> map_option isl (DataTable_constructor_part000 ex_options) = Some False
   \<and> DataTable_constructor (ex_options\<lparr>opt_element := None\<rparr>)
       = Some (Inl (Error ''Element not provided!''))
   \<and> \<not> isl (tablePage ex_args)
   \<and> tablePage (ex_args\<lparr>arg_container := None\<rparr>) = Inl (Error ''Element not found.'')
   \<and> tablePage (ex_args\<lparr>document_search := None\<rparr>) = Inl TypeError"
proof -
  have h: "opt_columns ex_options \<noteq> [] \<or> opt_sortColumn ex_options \<noteq> None"
    "arg_columns ex_args \<noteq> [] \<or> arg_sortColumn ex_args \<noteq> None"
    by (simp_all add: ex_options_def ex_args_def)
  have h': "opt_columns (ex_options\<lparr>opt_element := None\<rparr>) \<noteq> []
      \<or> opt_sortColumn (ex_options\<lparr>opt_element := None\<rparr>) \<noteq> None"
    "arg_columns (ex_args\<lparr>arg_container := None\<rparr>) \<noteq> []
      \<or> arg_sortColumn (ex_args\<lparr>arg_container := None\<rparr>) \<noteq> None"
    "arg_columns (ex_args\<lparr>document_search := None\<rparr>) \<noteq> []
      \<or> arg_sortColumn (ex_args\<lparr>document_search := None\<rparr>) \<noteq> None"
    by (simp_all add: ex_options_def ex_args_def)
  from construction_throws [OF h]
    construction_throws [OF h'(1) h'(2)]
    construction_throws [OF h(1) h'(3)]
  show ?thesis
    by (auto simp: ex_options_def ex_args_def)
qed

text \<open>
  C10. When \<open>tablePage\<close> is called with a container, empty data and \<open>hasRefresh\<close> unset or
  false (and it does not throw on the columns), the container holds the no-records card
  alone and the call returns \<open>undefined\<close>: no \<open>update\<close> function is handed out.
\<close>

theorem tablePage_empty_data:
  assumes "arg_container args = Some el" and "arg_data args = []"
    and "arg_hasRefresh args = None \<or> arg_hasRefresh args = Some False"
    and "arg_columns args \<noteq> [] \<or> arg_sortColumn args \<noteq> None"
  shows "tablePage args = Inr \<lparr>container_shows = Only_NoRecordsCard, returned = None\<rparr>"
  using assms
  by (auto simp: tablePage_def default_sortColumn_def Let_def split: option.splits list.splits)

text \<open>C10, at an input: one column, no data, \<open>hasRefresh\<close> left out.\<close>

theorem tablePage_empty_data_witness:
  "tablePage (ex_args\<lparr>arg_data := []\<rparr>)
     = Inr \<lparr>container_shows = Only_NoRecordsCard, returned = None\<rparr>"
  using tablePage_empty_data [of "ex_args\<lparr>arg_data := []\<rparr>" "''#table''"]
  by (simp add: ex_args_def)

text \<open>
  C5, evaluated. The table shows page 2 of three rows sorted ascending by \<open>n\<close>, and the
  header of \<open>n\<close> is clicked. In table.js the direction becomes \<open>desc\<close> and the rows are
  sorted again, but the current page stays 2. In the other version the direction becomes
  \<open>desc\<close> and the current page 1, but the rows stay in ascending order.
\<close>

theorem header_click_evaluated:
  "this_currentPage ex_table = 2
   \<and> map (\<lambda>r. get r ''n'') (this_filtered ex_table) = [Num 1, Num 2, Num 3]
   \<and> this_sortColumn (renderTableHead_click (ex_column ''n'' False) ex_table)
       = \<lparr>key = ''n'', order = ''desc''\<rparr>
   \<and> map (\<lambda>r. get r ''n'') (this_filtered (renderTableHead_click (ex_column ''n'' False) ex_table))
       = [Num 3, Num 2, Num 1]
   \<and> this_currentPage (renderTableHead_click (ex_column ''n'' False) ex_table) = 2
   \<and> this_sortColumn (renderTableHead_click_part000 (ex_column ''n'' False) ex_table)
       = \<lparr>key = ''n'', order = ''desc''\<rparr>
   \<and> this_currentPage (renderTableHead_click_part000 (ex_column ''n'' False) ex_table) = 1
   \<and> map (\<lambda>r. get r ''n'')
         (this_filtered (renderTableHead_click_part000 (ex_column ''n'' False) ex_table))
       = [Num 1, Num 2, Num 3]"
  by (simp add: ex_table_def ex_column_def renderTableHead_click_def
      renderTableHead_click_part000_def clicked_sortColumn_def sortData_def render_def
      DataTable_paginate_def array_sort_sortData_comparable comparable_keys_def is_Num_def
      insertion_sort_def Let_def get_def sortData_compare_desc_Num)

text \<open>
  C6, evaluated. A record without the key \<open>age\<close> is searched in the column \<open>age\<close> for
  the term \<open>undefined\<close>: the missing value is stringified to the text \<open>undefined\<close>, which
  is not empty, and the record matches in both variants.
\<close>

theorem missing_value_matches_undefined:
  "get [''name'' \<mapsto> Str ''Ann''] ''age'' = Undefined
   \<and> filterByTerm_callback [ex_column ''age'' False] ''undefined'' [''name'' \<mapsto> Str ''Ann'']
   \<and> search_callback [ex_column ''age'' False] ''undefined'' [''name'' \<mapsto> Str ''Ann'']
   \<and> length (filterByTerm_filter [ex_column ''age'' False] ''undefined''
         [[''name'' \<mapsto> Str ''Ann'']]) = 1"
  by (simp add: ex_column_def get_def ToString_def toLowerCase_def lower_char_def
      filterByTerm_filter_def)

text \<open>
  C4, as stated, fails for a negative page: ten records in pages of three make four
  pages, and page \<open>-1\<close> is the slice from index \<open>-6\<close> to \<open>-3\<close>, which counts from the
  end and holds three records.
\<close>

theorem paginate_negative_page_counterexample:
  "pages (length [0, 1, 2, 3, 4, 5, 6, 7, 8, 9 :: nat]) 3 = Some 4
   \<and> paginate [0, 1, 2, 3, 4, 5, 6, 7, 8, 9 :: nat] (- 1) 3 = [4, 5, 6]"
  by (simp add: pages_pos paginate_def slice_def relative_index_def)

text \<open>
  C4, amended. For a positive page size, a page beyond the number of pages and the page
  0 give the empty slice; a negative page \<open>p\<close> gives a slice counted from the end of the
  data, which is empty exactly when the data has at most \<open>-p * pageSize\<close> records.
  \<open>paginate\<close> has no error result, and \<open>changePage\<close> stores the page number it is given.
\<close>

theorem paginate_out_of_range:
  assumes "0 < psize" and "pages (length xs) psize = Some totalPages"
  shows "(if totalPages < p \<or> p = 0 then paginate xs p psize = []
          else if p < 0 then (paginate xs p psize = []) = (int (length xs) \<le> - p * psize)
          else True)
         \<and> this_currentPage (changePage p s) = p"
proof -
  have t: "totalPages = - ((- int (length xs)) div psize)"
    using assms by (simp add: pages_pos)
  have cover: "int (length xs) \<le> totalPages * psize"
    unfolding t using assms(1) by (rule ceil_div_bounds(1))
  have beyond: "paginate xs p psize = []" if "totalPages < p"
  proof -
    have "totalPages * psize \<le> (p - 1) * psize"
      using that assms(1) by (intro mult_right_mono) simp_all
    with cover have "int (length xs) \<le> psize * (p - 1)" by (simp add: mult.commute)
    moreover from this have "0 \<le> psize * (p - 1)" by linarith
    ultimately show ?thesis
      using assms(1) by (simp add: paginate_def slice_def relative_index_def Let_def)
  qed
  have zero: "paginate xs 0 psize = []"
    using assms(1) by (simp add: paginate_def slice_def relative_index_def Let_def)
  have negative: "(paginate xs p psize = []) = (int (length xs) \<le> - p * psize)" if "p < 0"
  proof -
    have a: "psize * (p - 1) < 0" "psize * (p - 1) + psize < 0"
      using that assms(1) by (simp_all add: mult_less_0_iff algebra_simps)
    have b: "psize * (p - 1) + psize = p * psize" by (simp add: algebra_simps)
    show ?thesis
      using a assms(1)
      by (auto simp: paginate_def slice_def relative_index_def Let_def b max_def algebra_simps)
  qed
  have page: "this_currentPage (changePage p s) = p"
    by (simp add: changePage_def render_def DataTable_paginate_def)
  from beyond zero negative page show ?thesis by auto
qed

text \<open>
  C4, at inputs: with ten records in pages of three, page 5 and page \<open>-4\<close> are empty, and
  the page number 5 is stored as it is.
\<close>

theorem paginate_out_of_range_witness:
  "(0::int) < 3
   \<and> pages (length [0, 1, 2, 3, 4, 5, 6, 7, 8, 9 :: nat]) 3 = Some 4
   \<and> paginate [0, 1, 2, 3, 4, 5, 6, 7, 8, 9 :: nat] 5 3 = []
   \<and> paginate [0, 1, 2, 3, 4, 5, 6, 7, 8, 9 :: nat] (- 4) 3 = []
   \<and> this_currentPage (changePage 5 ex_table) = 5"
proof -
  have h: "(0::int) < 3" by simp
  have p: "pages (length [0, 1, 2, 3, 4, 5, 6, 7, 8, 9 :: nat]) 3 = Some 4"
    by (simp add: pages_pos)
  from paginate_out_of_range [OF h p, of 5 ex_table]
    paginate_out_of_range [OF h p, of "- 4" ex_table] h p
  show ?thesis by simp
qed

end
